theory Spec2Isabelle
  imports Complex_Main "HOL-Library.Sublist"
begin

section \<open>Python values used by the example script\<close>

text \<open>
  The script \<^verbatim>\<open>examples/example_use_flmr.py\<close> is embedded function by function.
  Python integers are \<open>int\<close>, Python floats are idealised as \<open>real\<close> (the constants
  \<open>2.5\<close>, \<open>5\<close> and \<open>0.05\<close> of the script are the reals they denote), strings are
  \<open>string\<close>, read as sequences of ASCII characters. An exception is a value \<open>Inl e\<close>
  of the result type \<open>error + 'a\<close>.
\<close>

datatype error =
    KeyError string
  | IndexError
  | ValueError

subsection \<open>Sequences: indexing, slicing, maximum\<close>

text \<open>\<^verbatim>\<open>xs[i]\<close>: a negative index counts from the end, an index out of range raises.\<close>

definition getitem :: "'a list \<Rightarrow> int \<Rightarrow> error + 'a" where
  "getitem xs i =
     (if 0 \<le> i \<and> i < int (length xs) then Inr (xs ! nat i)
      else if i < 0 \<and> - int (length xs) \<le> i then Inr (xs ! nat (int (length xs) + i))
      else Inl IndexError)"

text \<open>\<^verbatim>\<open>xs[:k]\<close>: a negative bound counts from the end; the slice never raises.\<close>

definition slice_to :: "'a list \<Rightarrow> int \<Rightarrow> 'a list" where
  "slice_to xs k = (if k < 0 then take (nat (int (length xs) + k)) xs else take (nat k) xs)"

text \<open>\<^verbatim>\<open>max(Ks)\<close> and \<^verbatim>\<open>np.max(np.array(xs))\<close>: both raise ValueError on an empty sequence.\<close>

fun max_loop :: "int \<Rightarrow> int list \<Rightarrow> int" where
  "max_loop m [] = m"
| "max_loop m (x # xs) = max_loop (max m x) xs"

definition py_max :: "int list \<Rightarrow> error + int" where
  "py_max xs = (case xs of [] \<Rightarrow> Inl ValueError | x # rest \<Rightarrow> Inr (max_loop x rest))"

subsection \<open>Strings: strip, lower, substring test, join, split, replace\<close>

text \<open>The ASCII characters for which \<^verbatim>\<open>str.isspace\<close> holds.\<close>

definition is_space :: "char \<Rightarrow> bool" where
  "is_space c = (c \<in> set [CHR 0x09, CHR 0x0A, CHR 0x0B, CHR 0x0C, CHR 0x0D,
                         CHR 0x1C, CHR 0x1D, CHR 0x1E, CHR 0x1F, CHR 0x20])"

definition strip :: "string \<Rightarrow> string" where
  "strip s = rev (dropWhile is_space (rev (dropWhile is_space s)))"

definition lower_char :: "char \<Rightarrow> char" where
  "lower_char c =
     (case map_of (zip ''ABCDEFGHIJKLMNOPQRSTUVWXYZ'' ''abcdefghijklmnopqrstuvwxyz'') c of
        Some l \<Rightarrow> l
      | None \<Rightarrow> c)"

definition lower :: "string \<Rightarrow> string" where
  "lower s = map lower_char s"

text \<open>\<^verbatim>\<open>sub in s\<close> on strings: \<open>sub\<close> starts at some position of \<open>s\<close>.\<close>

fun str_in :: "string \<Rightarrow> string \<Rightarrow> bool" where
  "str_in sub [] = (sub = [])"
| "str_in sub (c # cs) = (prefix sub (c # cs) \<or> str_in sub cs)"

text \<open>\<^verbatim>\<open>sep.join(xs)\<close>.\<close>

fun join :: "string \<Rightarrow> string list \<Rightarrow> string" where
  "join sep [] = []"
| "join sep [x] = x"
| "join sep (x # y # ys) = x @ sep @ join sep (y # ys)"

text \<open>
  \<^verbatim>\<open>s.split(sep)\<close> for a non-empty separator: the occurrences of \<open>sep\<close> are found from
  the left and do not overlap. \<open>skip\<close> counts the characters of a separator still to be
  passed over, \<open>cur\<close> holds the current field, reversed.
\<close>

fun split_loop :: "string \<Rightarrow> nat \<Rightarrow> string \<Rightarrow> string \<Rightarrow> string list" where
  "split_loop sep skip cur [] = [rev cur]"
| "split_loop sep skip cur (c # cs) =
     (if 0 < skip then split_loop sep (skip - 1) cur cs
      else if prefix sep (c # cs) then rev cur # split_loop sep (length sep - 1) [] cs
      else split_loop sep 0 (c # cur) cs)"

definition str_split :: "string \<Rightarrow> string \<Rightarrow> string list" where
  "str_split s sep = split_loop sep 0 [] s"

text \<open>\<^verbatim>\<open>s.replace("\n", " ")\<close>: every newline character becomes one space.\<close>

definition replace_newline :: "string \<Rightarrow> string" where
  "replace_newline s = map (\<lambda>c. if c = CHR 0x0A then CHR 0x20 else c) s"

section \<open>Recall evaluation in \<^verbatim>\<open>encode_and_search_batch\<close>\<close>

text \<open>
  One entry of a ranking is the tuple \<^verbatim>\<open>(passage_id, rank, score)\<close>; the script reads
  \<^verbatim>\<open>doc[0]\<close> only. The dictionary \<^verbatim>\<open>ranking.todict()\<close> is an association list
  from question id to ranking, read with \<open>map_of\<close>.
\<close>

type_synonym doc = "int \<times> int \<times> real"

type_synonym ranking_dict = "(string \<times> doc list) list"

text \<open>
  \<^verbatim>\<open>recall_dict = defaultdict(list)\<close>: the key, the text \<^verbatim>\<open>Recall@\<close> followed by the
  decimal form of \<open>K\<close>, is represented by \<open>K\<close> itself; the entries keep their insertion
  order.
\<close>

type_synonym recall_dict = "(int \<times> real list) list"

fun append_recall :: "recall_dict \<Rightarrow> int \<Rightarrow> real \<Rightarrow> recall_dict" where
  "append_recall [] K r = [(K, [r])]"
| "append_recall ((K', rs) # d) K r =
     (if K' = K then (K', rs @ [r]) # d else (K', rs) # append_recall d K r)"

text \<open>\<^verbatim>\<open>[passage_contents[doc_idx] for doc_idx in retrieved_docs]\<close>\<close>

fun retrieved_doc_texts :: "string list \<Rightarrow> int list \<Rightarrow> error + string list" where
  "retrieved_doc_texts passage_contents [] = Inr []"
| "retrieved_doc_texts passage_contents (doc_idx # rest) =
     (case getitem passage_contents doc_idx of
        Inl e \<Rightarrow> Inl e
      | Inr text \<Rightarrow>
          (case retrieved_doc_texts passage_contents rest of
             Inl e \<Rightarrow> Inl e
           | Inr texts \<Rightarrow> Inr (text # texts)))"

text \<open>The inner loop \<^verbatim>\<open>for answer in answers\<close> with its flag \<^verbatim>\<open>found\<close>.\<close>

fun found_loop :: "bool \<Rightarrow> string list \<Rightarrow> string \<Rightarrow> bool" where
  "found_loop found [] retrieved_doc_text = found"
| "found_loop found (answer # answers) retrieved_doc_text =
     found_loop (if str_in (lower (strip answer)) (lower retrieved_doc_text) then True else found)
       answers retrieved_doc_text"

text \<open>The loop \<^verbatim>\<open>for retrieved_doc_text in retrieved_doc_texts\<close> that fills \<^verbatim>\<open>hit_list\<close>.\<close>

fun hit_loop :: "int list \<Rightarrow> string list \<Rightarrow> string list \<Rightarrow> int list" where
  "hit_loop hit_list answers [] = hit_list"
| "hit_loop hit_list answers (retrieved_doc_text # rest) =
     hit_loop (hit_list @ [if found_loop False answers retrieved_doc_text then 1 else 0])
       answers rest"

text \<open>\<^verbatim>\<open>recall = float(np.max(np.array(hit_list[:K])))\<close>\<close>

definition recall_at :: "int list \<Rightarrow> int \<Rightarrow> error + real" where
  "recall_at hit_list K =
     (case py_max (slice_to hit_list K) of Inl e \<Rightarrow> Inl e | Inr m \<Rightarrow> Inr (real_of_int m))"

text \<open>The loop \<^verbatim>\<open>for K in Ks\<close>.\<close>

fun recall_loop :: "recall_dict \<Rightarrow> int list \<Rightarrow> int list \<Rightarrow> error + recall_dict" where
  "recall_loop d hit_list [] = Inr d"
| "recall_loop d hit_list (K # Ks) =
     (case recall_at hit_list K of
        Inl e \<Rightarrow> Inl e
      | Inr recall \<Rightarrow> recall_loop (append_recall d K recall) hit_list Ks)"

text \<open>The body of the loop over the queries of a batch, lines 95 to 113.\<close>

definition score_query ::
  "string list \<Rightarrow> ranking_dict \<Rightarrow> int list \<Rightarrow> recall_dict \<Rightarrow> string \<Rightarrow> string list
     \<Rightarrow> error + recall_dict" where
  "score_query passage_contents ranking Ks d question_id answers =
     (case map_of ranking question_id of
        None \<Rightarrow> Inl (KeyError question_id)
      | Some retrieved_docs \<Rightarrow>
          (case retrieved_doc_texts passage_contents (map fst retrieved_docs) of
             Inl e \<Rightarrow> Inl e
           | Inr texts \<Rightarrow> recall_loop d (hit_loop [] answers texts) Ks))"

text \<open>\<^verbatim>\<open>for question_id, answers in zip(batch["question_id"], batch["answers"])\<close>\<close>

fun query_loop ::
  "string list \<Rightarrow> ranking_dict \<Rightarrow> int list \<Rightarrow> recall_dict \<Rightarrow> (string \<times> string list) list
     \<Rightarrow> error + recall_dict" where
  "query_loop passage_contents ranking Ks d [] = Inr d"
| "query_loop passage_contents ranking Ks d ((question_id, answers) # rest) =
     (case score_query passage_contents ranking Ks d question_id answers of
        Inl e \<Rightarrow> Inl e
      | Inr d' \<Rightarrow> query_loop passage_contents ranking Ks d' rest)"

text \<open>
  The columns of a batch that the evaluation reads. The encoder and the searcher are
  external: \<open>ranking\<close> is the dictionary the searcher returned for this batch when asked
  for \<^verbatim>\<open>max(Ks)\<close> documents per query. The function returns the recall columns that
  \<^verbatim>\<open>batch.update(recall_dict)\<close> adds to the batch.
\<close>

record batch =
  question_id :: "string list"
  answers :: "string list list"

definition encode_and_search_batch ::
  "ranking_dict \<Rightarrow> string list \<Rightarrow> batch \<Rightarrow> int list \<Rightarrow> error + recall_dict" where
  "encode_and_search_batch ranking passage_contents b Ks =
     (case py_max Ks of
        Inl e \<Rightarrow> Inl e
      | Inr num_document_to_retrieve \<Rightarrow>
          query_loop passage_contents ranking Ks [] (zip (question_id b) (answers b)))"

section \<open>Query composition in \<^verbatim>\<open>prepare_inputs\<close>\<close>

text \<open>
  A sample is the record of the dataset: a detected object is the dictionary with the
  entries \<^verbatim>\<open>class\<close>, \<^verbatim>\<open>attributes\<close> and \<^verbatim>\<open>attribute_scores\<close>, an OCR annotation the
  dictionary with the entry \<^verbatim>\<open>description\<close>, the caption either a string or the
  dictionary with the entry \<^verbatim>\<open>caption\<close>. \<open>text_sequence\<close> is absent until
  \<^verbatim>\<open>prepare_inputs\<close> sets it.
\<close>

record detected_object =
  obj_class :: string
  attributes :: "string list"
  attribute_scores :: "real list"

record text_annotation =
  description :: string

datatype caption = Caption_str string | Caption_dict string

record sample =
  question :: string
  img_path :: string
  objects :: "detected_object list"
  img_ocr :: "text_annotation list"
  img_caption :: caption
  ROIs :: "string list"
  text_sequence :: "string option"

text \<open>The settings of the module \<^verbatim>\<open>TextBasedVisionInput\<close>, option \<^verbatim>\<open>object\<close>.\<close>

definition attribute_max :: int where
  "attribute_max = 3"

definition attribute_thres :: real where
  "attribute_thres = 0.05"

definition ocr :: int where
  "ocr = 1"

text \<open>The loop over \<^verbatim>\<open>zip(obj["attributes"], obj["attribute_scores"])\<close>.\<close>

fun attribute_loop :: "string list \<Rightarrow> (string \<times> real) list \<Rightarrow> string list" where
  "attribute_loop suitable_attributes [] = suitable_attributes"
| "attribute_loop suitable_attributes ((attribute, att_score) # rest) =
     attribute_loop
       (if att_score > attribute_thres \<and> int (length suitable_attributes) < attribute_max
        then suitable_attributes @ [attribute]
        else suitable_attributes)
       rest"

text \<open>The loop \<^verbatim>\<open>for obj in sample.objects\<close>.\<close>

fun object_loop :: "string list \<Rightarrow> detected_object list \<Rightarrow> string list" where
  "object_loop vision_sentences [] = vision_sentences"
| "object_loop vision_sentences (obj # rest) =
     object_loop
       ((if attribute_max > 0
         then vision_sentences @ attribute_loop [] (zip (attributes obj) (attribute_scores obj))
         else vision_sentences)
        @ [obj_class obj] @ [''<SOV>''])
       rest"

text \<open>The loop \<^verbatim>\<open>for text_annoation in text_annotations\<close>.\<close>

fun ocr_loop :: "string list \<Rightarrow> text_annotation list \<Rightarrow> string list" where
  "ocr_loop filtered_descriptions [] = filtered_descriptions"
| "ocr_loop filtered_descriptions (text_annoation # rest) =
     (let desc = replace_newline (strip (description text_annoation))
      in ocr_loop
           (if desc \<notin> set filtered_descriptions
            then filtered_descriptions @ [desc]
            else filtered_descriptions)
           rest)"

text \<open>
  The list of the specification for the OCR descriptions: duplicates removed, the order of
  first occurrence kept. An entry stays and its later copies are dropped.
\<close>

fun first_occurrences :: "'a list \<Rightarrow> 'a list" where
  "first_occurrences [] = []"
| "first_occurrences (x # xs) = x # first_occurrences (filter (\<lambda>y. y \<noteq> x) xs)"

text \<open>Lines 200 to 264 of \<^verbatim>\<open>prepare_inputs\<close>: the text sequence of a sample.\<close>

definition compose_text :: "sample \<Rightarrow> string" where
  "compose_text s =
     (let text_sequence = join '' '' ([''<BOQ>''] @ [question s] @ [''<EOQ>'']);
          vision_sentences = [''<BOV>''];
          vision_sentences = object_loop vision_sentences (objects s);
          vision_sentences =
            (if ocr > 0 then vision_sentences @ ocr_loop [] (img_ocr s) else vision_sentences);
          vision_sentences = vision_sentences @ [''<EOV>''];
          text_sequence = text_sequence @ '' '' @ join '' '' vision_sentences;
          caption = (case img_caption s of Caption_dict c \<Rightarrow> c | Caption_str c \<Rightarrow> c)
      in text_sequence @ '' '' @ join '' '' ([''<BOC>''] @ [caption] @ [''<EOC>'']))"

text \<open>
  Lines 269 to 271: the region list is padded with its last entry, then cut to
  \<^verbatim>\<open>num_ROIs\<close> entries. \<^verbatim>\<open>sample["ROIs"][-1]\<close> raises on an empty list.
\<close>

definition pad_ROIs :: "string list \<Rightarrow> int \<Rightarrow> error + string list" where
  "pad_ROIs rois num_ROIs =
     (if num_ROIs > int (length rois) then
        (case getitem rois (- 1) of
           Inl e \<Rightarrow> Inl e
         | Inr l \<Rightarrow>
             Inr (slice_to (rois @ replicate (nat (num_ROIs - int (length rois))) l) num_ROIs))
      else Inr (slice_to rois num_ROIs))"

definition prepare_inputs :: "sample \<Rightarrow> int \<Rightarrow> error + sample" where
  "prepare_inputs s num_ROIs =
     (let s = s\<lparr>text_sequence := Some (compose_text s)\<rparr>
      in case pad_ROIs (ROIs s) num_ROIs of
           Inl e \<Rightarrow> Inl e
         | Inr rois \<Rightarrow> Inr (s\<lparr>ROIs := rois\<rparr>))"

section \<open>Image crops in \<^verbatim>\<open>tokenize_inputs\<close>\<close>

text \<open>
  An image is a file opened by \<^verbatim>\<open>Image.open(path).convert("RGB")\<close> or the result of
  \<^verbatim>\<open>img.crop(crop)\<close>. Opening a file is taken to succeed; \<open>img_size\<close> gives the pixel
  size \<^verbatim>\<open>img.size\<close> of the file at a path. \<open>float\<close> is Python's conversion of a
  string to a number, \<open>None\<close> where it raises ValueError.
\<close>

type_synonym box = "real \<times> real \<times> real \<times> real"

datatype image = Image_open string | Image_crop image box

text \<open>
  Lines 293 to 303: a crop under 5 pixels in both directions is enlarged by 2.5 pixels on
  each side, within the image. The second test reads the vertical bounds, which the first
  assignment leaves as they were.
\<close>

definition sanitize :: "box \<Rightarrow> int \<times> int \<Rightarrow> box" where
  "sanitize crop image_size =
     (case crop of (xmin, ymin, xmax, ymax) \<Rightarrow>
        if xmax - xmin < 5 \<and> ymax - ymin < 5 then
          let (xmin', xmax') =
                (if xmax - xmin < 5
                 then (max 0 (xmin - 2.5), min (real_of_int (fst image_size)) (xmax + 2.5))
                 else (xmin, xmax));
              (ymin', ymax') =
                (if ymax - ymin < 5
                 then (max 0 (ymin - 2.5), min (real_of_int (snd image_size)) (ymax + 2.5))
                 else (ymin, ymax))
          in (xmin', ymin', xmax', ymax')
        else crop)"

text \<open>
  The validity the specification asks of a box: every coordinate is non-negative and
  within the bounds of the image.
\<close>

definition valid_box :: "box \<Rightarrow> int \<times> int \<Rightarrow> bool" where
  "valid_box b image_size =
     (case b of (xmin, ymin, xmax, ymax) \<Rightarrow>
        0 \<le> xmin \<and> xmin \<le> real_of_int (fst image_size)
      \<and> 0 \<le> xmax \<and> xmax \<le> real_of_int (fst image_size)
      \<and> 0 \<le> ymin \<and> ymin \<le> real_of_int (snd image_size)
      \<and> 0 \<le> ymax \<and> ymax \<le> real_of_int (snd image_size))"

text \<open>
  Lines 289 to 305, the body of the loop over the regions of one example. Unpacking a
  split into the wrong number of names raises ValueError, as a failing \<open>float\<close> does.
\<close>

definition crop_ROI ::
  "(string \<Rightarrow> real option) \<Rightarrow> (string \<Rightarrow> int \<times> int) \<Rightarrow> string \<Rightarrow> error + image" where
  "crop_ROI float img_size ROI =
     (case str_split ROI ''|||'' of
        [path, remaining] \<Rightarrow>
          (case str_split remaining ''_'' of
             [class_name, xmin, ymin, xmax, ymax] \<Rightarrow>
               (case (float xmin, float ymin, float xmax, float ymax) of
                  (Some x0, Some y0, Some x1, Some y1) \<Rightarrow>
                    Inr (Image_crop (Image_open path) (sanitize (x0, y0, x1, y1) (img_size path)))
                | _ \<Rightarrow> Inl ValueError)
           | _ \<Rightarrow> Inl ValueError)
      | _ \<Rightarrow> Inl ValueError)"

text \<open>The loop \<^verbatim>\<open>for ROI in ROIs\<close> appending to \<^verbatim>\<open>all_images\<close>.\<close>

fun ROI_loop ::
  "(string \<Rightarrow> real option) \<Rightarrow> (string \<Rightarrow> int \<times> int) \<Rightarrow> image list \<Rightarrow> string list
     \<Rightarrow> error + image list" where
  "ROI_loop float img_size all_images [] = Inr all_images"
| "ROI_loop float img_size all_images (ROI # rest) =
     (case crop_ROI float img_size ROI of
        Inl e \<Rightarrow> Inl e
      | Inr img \<Rightarrow> ROI_loop float img_size (all_images @ [img]) rest)"

text \<open>The image list of one example: the primary image, then one crop per region.\<close>

definition all_images ::
  "(string \<Rightarrow> real option) \<Rightarrow> (string \<Rightarrow> int \<times> int) \<Rightarrow> string \<Rightarrow> string list
     \<Rightarrow> error + image list" where
  "all_images float img_size path rois = ROI_loop float img_size [Image_open path] rois"



section \<open>Facts about the sequence and string operations\<close>

lemma max_loop_Max: "max_loop m xs = Max (insert m (set xs))"
proof (induction xs arbitrary: m)
  case Nil
  then show ?case by simp
next
  case (Cons x xs)
  have "Max (insert (max m x) (set xs)) = Max (insert m (insert x (set xs)))"
    by (metis List.finite_set Max_insert Max_singleton finite_insert insert_not_empty max.assoc)
  with Cons show ?case by simp
qed

lemma py_max_Max: "xs \<noteq> [] \<Longrightarrow> py_max xs = Inr (Max (set xs))"
  by (cases xs) (simp_all add: py_max_def max_loop_Max)

lemma slice_to_nonneg: "0 \<le> k \<Longrightarrow> slice_to xs k = take (nat k) xs"
  by (simp add: slice_to_def)

lemma recall_at_take:
  assumes "hit_list \<noteq> []" and "1 \<le> K"
  shows "recall_at hit_list K = Inr (real_of_int (Max (set (take (nat K) hit_list))))"
proof -
  from assms have "take (nat K) hit_list \<noteq> []" by (cases hit_list) auto
  then have "py_max (take (nat K) hit_list) = Inr (Max (set (take (nat K) hit_list)))"
    by (rule py_max_Max)
  with assms show ?thesis by (simp add: recall_at_def slice_to_nonneg)
qed

lemma hit_loop_map:
  "hit_loop acc ans texts = acc @ map (\<lambda>t. if found_loop False ans t then 1 else 0) texts"
  by (induction texts arbitrary: acc) simp_all

lemma found_loop_iff:
  "found_loop found ans t \<longleftrightarrow> found \<or> (\<exists>a\<in>set ans. str_in (lower (strip a)) (lower t))"
  by (induction ans arbitrary: found) auto

lemma retrieved_doc_texts_length:
  "retrieved_doc_texts pc ids = Inr texts \<Longrightarrow> length texts = length ids"
  by (induction ids arbitrary: texts) (auto split: sum.splits)

lemma str_in_iff: "str_in sub s \<longleftrightarrow> (\<exists>p q. s = p @ sub @ q)"
proof (induction s)
  case Nil
  then show ?case by auto
next
  case (Cons c cs)
  show ?case
  proof
    assume "str_in sub (c # cs)"
    then consider "prefix sub (c # cs)" | "str_in sub cs" by auto
    then show "\<exists>p q. c # cs = p @ sub @ q"
    proof cases
      case 1
      then obtain q where "c # cs = sub @ q" by (auto simp: prefix_def)
      then have "c # cs = [] @ sub @ q" by simp
      then show ?thesis by blast
    next
      case 2
      with Cons obtain p q where "cs = p @ sub @ q" by blast
      then have "c # cs = (c # p) @ sub @ q" by simp
      then show ?thesis by blast
    qed
  next
    assume "\<exists>p q. c # cs = p @ sub @ q"
    then obtain p q where pq: "c # cs = p @ sub @ q" by blast
    show "str_in sub (c # cs)"
    proof (cases p)
      case Nil
      with pq have "prefix sub (c # cs)" by (simp add: prefix_def)
      then show ?thesis by simp
    next
      case (Cons a p')
      with pq have "cs = p' @ sub @ q" by simp
      with Cons.IH have "str_in sub cs" by blast
      then show ?thesis by simp
    qed
  qed
qed

lemma Max_indicator:
  assumes "xs \<noteq> []"
  shows "Max (set (map (\<lambda>t. if P t then 1 else 0) xs)) = (if \<exists>t\<in>set xs. P t then 1 else (0::int))"
proof (cases "\<exists>t\<in>set xs. P t")
  case True
  then have "Max (set (map (\<lambda>t. if P t then 1 else 0) xs)) = (1::int)"
    by (intro Max_eqI) (auto simp: image_iff)
  with True show ?thesis by simp
next
  case False
  from assms obtain x where "x \<in> set xs" by (cases xs) auto
  with False have "Max (set (map (\<lambda>t. if P t then 1 else 0) xs)) = (0::int)"
    by (intro Max_eqI) (auto simp: image_iff)
  with False show ?thesis by simp
qed

lemma hit_loop_indicator:
  "hit_loop [] ans texts
     = map (\<lambda>t. if \<exists>a\<in>set ans. str_in (lower (strip a)) (lower t) then 1 else 0) texts"
  by (simp add: hit_loop_map found_loop_iff)




lemma score_query_missing:
  "map_of ranking qid = None \<Longrightarrow> score_query pc ranking Ks d qid ans = Inl (KeyError qid)"
  by (simp add: score_query_def)

lemma query_loop_fails:
  assumes "(qid, ans) \<in> set qs" and "\<And>d. \<exists>e. score_query pc ranking Ks d qid ans = Inl e"
  shows "\<exists>e. query_loop pc ranking Ks d qs = Inl e"
  using assms(1)
proof (induction qs arbitrary: d)
  case Nil
  then show ?case by simp
next
  case (Cons q qs)
  obtain qid' ans' where q: "q = (qid', ans')" by (cases q)
  show ?case
  proof (cases "score_query pc ranking Ks d qid' ans'")
    case (Inl e)
    with q show ?thesis by simp
  next
    case (Inr d')
    have "(qid', ans') \<noteq> (qid, ans)"
    proof
      assume "(qid', ans') = (qid, ans)"
      with Inr have "score_query pc ranking Ks d qid ans = Inr d'" by simp
      moreover from assms(2) obtain e where "score_query pc ranking Ks d qid ans = Inl e" by blast
      ultimately show False by simp
    qed
    with Cons.prems q have "(qid, ans) \<in> set qs" by auto
    then have "\<exists>e. query_loop pc ranking Ks d' qs = Inl e" by (rule Cons.IH)
    with q Inr show ?thesis by simp
  qed
qed

lemma sanitize_small:
  "xmax - xmin < 5 \<Longrightarrow> ymax - ymin < 5 \<Longrightarrow>
   sanitize (xmin, ymin, xmax, ymax) (W, H)
     = (max 0 (xmin - 2.5), max 0 (ymin - 2.5),
        min (real_of_int W) (xmax + 2.5), min (real_of_int H) (ymax + 2.5))"
  by (simp add: sanitize_def)

lemma sanitize_large:
  "\<not> (xmax - xmin < 5 \<and> ymax - ymin < 5) \<Longrightarrow>
   sanitize (xmin, ymin, xmax, ymax) image_size = (xmin, ymin, xmax, ymax)"
  by (auto simp: sanitize_def)

lemma attribute_loop_take:
  "attribute_loop acc zs
     = acc @ take (3 - length acc) (map fst (filter (\<lambda>(a, sc). sc > 0.05) zs))"
proof (induction zs arbitrary: acc)
  case Nil
  then show ?case by simp
next
  case (Cons z zs)
  obtain a sc where z: "z = (a, sc)" by (cases z)
  show ?case
  proof (cases "sc > 0.05 \<and> length acc < 3")
    case True
    then obtain k where k: "3 - length acc = Suc k" by (cases "3 - length acc") auto
    then have "3 - length (acc @ [a]) = k" by simp
    with True z k Cons.IH [of "acc @ [a]"] show ?thesis
      by (simp add: attribute_thres_def attribute_max_def)
  next
    case False
    with z Cons.IH [of acc] show ?thesis
      by (auto simp: attribute_thres_def attribute_max_def)
  qed
qed




lemma join_append:
  "xs \<noteq> [] \<Longrightarrow> ys \<noteq> [] \<Longrightarrow> join sep (xs @ ys) = join sep xs @ sep @ join sep ys"
proof (induction sep xs rule: join.induct)
  case (1 sep)
  then show ?case by simp
next
  case (2 sep x)
  then show ?case by (cases ys) simp_all
next
  case (3 sep x y ys')
  then show ?case by simp
qed

lemma object_loop_concat:
  "object_loop vs objs
     = vs @ concat (map (\<lambda>obj. attribute_loop [] (zip (attributes obj) (attribute_scores obj))
                              @ [obj_class obj, ''<SOV>'']) objs)"
  by (induction objs arbitrary: vs) (simp_all add: attribute_max_def)

lemma set_first_occurrences: "set (first_occurrences xs) = set xs"
  by (induction xs rule: first_occurrences.induct) auto

lemma distinct_first_occurrences: "distinct (first_occurrences xs)"
  by (induction xs rule: first_occurrences.induct) (auto simp: set_first_occurrences)

lemma ocr_loop_filter:
  "ocr_loop fd anns
     = fd @ first_occurrences
              (filter (\<lambda>d. d \<notin> set fd) (map (\<lambda>a. replace_newline (strip (description a))) anns))"
proof (induction anns arbitrary: fd)
  case Nil
  then show ?case by simp
next
  case (Cons a anns)
  let ?d = "replace_newline (strip (description a))"
  let ?rest = "map (\<lambda>a. replace_newline (strip (description a))) anns"
  show ?case
  proof (cases "?d \<in> set fd")
    case True
    with Cons.IH [of fd] show ?thesis by (simp add: Let_def)
  next
    case False
    have "filter (\<lambda>y. y \<noteq> ?d) (filter (\<lambda>d. d \<notin> set fd) ?rest)
        = filter (\<lambda>d. d \<notin> set (fd @ [?d])) ?rest"
      by (auto intro: filter_cong)
    with False Cons.IH [of "fd @ [?d]"] show ?thesis by (simp add: Let_def)
  qed
qed

lemma ocr_loop_first_occurrences:
  "ocr_loop [] anns = first_occurrences (map (\<lambda>a. replace_newline (strip (description a))) anns)"
  by (simp add: ocr_loop_filter)

lemma replace_newline_no_newline: "CHR 0x0A \<notin> set (replace_newline d)"
  by (auto simp: replace_newline_def)

lemma compose_text_segments:
  "compose_text s
     = join '' '' ([''<BOQ>''] @ [question s] @ [''<EOQ>''])
       @ '' ''
       @ join '' '' ([''<BOV>'']
           @ concat (map (\<lambda>obj. attribute_loop [] (zip (attributes obj) (attribute_scores obj))
                                @ [obj_class obj, ''<SOV>'']) (objects s))
           @ first_occurrences (map (\<lambda>a. replace_newline (strip (description a))) (img_ocr s))
           @ [''<EOV>''])
       @ '' ''
       @ join '' '' ([''<BOC>'']
           @ [case img_caption s of Caption_dict c \<Rightarrow> c | Caption_str c \<Rightarrow> c]
           @ [''<EOC>''])"
  by (simp add: compose_text_def Let_def ocr_def object_loop_concat ocr_loop_first_occurrences)

lemma prepare_inputs_text:
  "prepare_inputs s num_ROIs = Inr s' \<Longrightarrow> text_sequence s' = Some (compose_text s)"
  by (auto simp: prepare_inputs_def Let_def split: sum.splits)

section \<open>Recall at a cutoff\<close>

text \<open>
  Claim C2. For a query whose hit list is not empty and two cutoffs \<open>1 \<le> K1 < K2\<close>, both
  recalls are computed and Recall@K1 is at most Recall@K2; the loop over \<open>[K1, K2]\<close>
  records exactly these two values. Cutoffs are counts of retrieved passages, hence at
  least 1.
\<close>

theorem recall_monotone:
  assumes "hit_list \<noteq> []" and "1 \<le> K1" and "K1 < K2"
  shows "\<exists>r1 r2. recall_at hit_list K1 = Inr r1 \<and> recall_at hit_list K2 = Inr r2 \<and> r1 \<le> r2
           \<and> recall_loop [] hit_list [K1, K2] = Inr [(K1, [r1]), (K2, [r2])]"
proof -
  let ?m1 = "Max (set (take (nat K1) hit_list))"
  let ?m2 = "Max (set (take (nat K2) hit_list))"
  from assms have r1: "recall_at hit_list K1 = Inr (real_of_int ?m1)"
    by (simp add: recall_at_take)
  from assms have r2: "recall_at hit_list K2 = Inr (real_of_int ?m2)"
    by (simp add: recall_at_take)
  from assms have ne: "set (take (nat K1) hit_list) \<noteq> {}" by (cases hit_list) auto
  from assms have "nat K1 \<le> nat K2" by simp
  then have "set (take (nat K1) hit_list) \<subseteq> set (take (nat K2) hit_list)"
    by (rule set_take_subset_set_take)
  with ne have "?m1 \<le> ?m2" by (intro Max_mono) auto
  then have le: "real_of_int ?m1 \<le> real_of_int ?m2" by simp
  from assms r1 r2 have "recall_loop [] hit_list [K1, K2]
      = Inr [(K1, [real_of_int ?m1]), (K2, [real_of_int ?m2])]"
    by simp
  with r1 r2 le show ?thesis by blast
qed

theorem recall_monotone_witness:
  "\<exists>r1 r2. recall_at [0, 1, 0, 0, 0] 1 = Inr r1 \<and> recall_at [0, 1, 0, 0, 0] 5 = Inr r2 \<and> r1 \<le> r2
     \<and> recall_loop [] [0, 1, 0, 0, 0] [1, 5] = Inr [(1, [r1]), (5, [r2])]"
  using recall_monotone [of "[0, 1, 0, 0, 0]" 1 5] by simp

text \<open>
  Claim C10. For a query whose ranking is not empty and shorter than \<open>K\<close>, given that its
  passage ids index the corpus: the hit list has one entry per returned passage and no
  more, the slice \<^verbatim>\<open>hit_list[:K]\<close> is the whole hit list, and Recall@K is computed without
  error as the maximum of the hit indicators of the passages returned.
\<close>

theorem recall_short_ranking:
  assumes "map_of ranking qid = Some docs"
    and "retrieved_doc_texts pc (map fst docs) = Inr texts"
    and "docs \<noteq> []" and "int (length docs) < K"
  shows "length (hit_loop [] ans texts) = length docs
     \<and> slice_to (hit_loop [] ans texts) K = hit_loop [] ans texts
     \<and> recall_at (hit_loop [] ans texts) K = Inr (real_of_int (Max (set (hit_loop [] ans texts))))
     \<and> score_query pc ranking [K] [] qid ans
         = Inr [(K, [real_of_int (Max (set (hit_loop [] ans texts)))])]"
proof -
  let ?hits = "hit_loop [] ans texts"
  from assms(2) have "length texts = length docs"
    by (auto dest: retrieved_doc_texts_length)
  then have len: "length ?hits = length docs" by (simp add: hit_loop_map)
  with assms have ne: "?hits \<noteq> []" by auto
  from len assms have sl: "slice_to ?hits K = ?hits" by (simp add: slice_to_def)
  from ne have "py_max ?hits = Inr (Max (set ?hits))" by (rule py_max_Max)
  with sl have r: "recall_at ?hits K = Inr (real_of_int (Max (set ?hits)))"
    by (simp add: recall_at_def)
  from assms r have "score_query pc ranking [K] [] qid ans
      = Inr [(K, [real_of_int (Max (set ?hits))])]"
    by (simp add: score_query_def)
  with len sl r show ?thesis by blast
qed

theorem recall_short_ranking_witness:
  "length (hit_loop [] [''paris''] [''<BOK> Paris <EOK>'', ''<BOK> Rome <EOK>''])
       = length [(0, 1, 2), (1, 2, 1) :: doc]
     \<and> slice_to (hit_loop [] [''paris''] [''<BOK> Paris <EOK>'', ''<BOK> Rome <EOK>'']) 5
       = hit_loop [] [''paris''] [''<BOK> Paris <EOK>'', ''<BOK> Rome <EOK>'']
     \<and> score_query [''<BOK> Paris <EOK>'', ''<BOK> Rome <EOK>'']
          [(''q1'', [(0, 1, 2), (1, 2, 1)])] [5] [] ''q1'' [''paris'']
       = Inr [(5, [1])]"
  using recall_short_ranking [of "[(''q1'', [(0, 1, 2), (1, 2, 1)])]" "''q1''"
      "[(0, 1, 2), (1, 2, 1)]" "[''<BOK> Paris <EOK>'', ''<BOK> Rome <EOK>'']"
      "[''<BOK> Paris <EOK>'', ''<BOK> Rome <EOK>'']" 5 "[''paris'']"]
  by (simp add: getitem_def lower_def lower_char_def strip_def is_space_def)

text \<open>
  Claim C3, amended. A retrieved passage is marked a hit exactly when some gold answer,
  stripped and lower-cased, occurs as a substring of the lower-cased passage text. For a
  query whose ranking is not empty and a cutoff \<open>K\<close> of at least 1, Recall@K is 1 if one of
  the first \<open>K\<close> retrieved passages is a hit and 0 otherwise. With the gold answer
  \<^verbatim>\<open>paris\<close>, the passage \<^verbatim>\<open>The capital is Paris, France.\<close> at rank 2 of 5 and no hit at
  rank 1, Recall@1 is 0 and Recall@5 is 1.
\<close>

theorem recall_is_hit_indicator:
  assumes "map_of ranking qid = Some docs"
    and "retrieved_doc_texts pc (map fst docs) = Inr texts"
    and "docs \<noteq> []" and "1 \<le> K"
  shows "(str_in sub text \<longleftrightarrow> (\<exists>p q. text = p @ sub @ q))
     \<and> hit_loop [] ans texts
         = map (\<lambda>t. if \<exists>a\<in>set ans. str_in (lower (strip a)) (lower t) then 1 else 0) texts
     \<and> score_query pc ranking [K] [] qid ans
         = Inr [(K, [if \<exists>t\<in>set (take (nat K) texts).
                          \<exists>a\<in>set ans. str_in (lower (strip a)) (lower t) then 1 else 0])]
     \<and> (\<not> str_in ''paris'' (lower p1) \<longrightarrow>
          score_query [p1, ''The capital is Paris, France.'', p3, p4, p5]
            [(qid, [(0, 1, s1), (1, 2, s2), (2, 3, s3), (3, 4, s4), (4, 5, s5)])]
            [1, 5] [] qid [''paris'']
          = Inr [(1, [0]), (5, [1])])"
proof -
  let ?P = "\<lambda>t. \<exists>a\<in>set ans. str_in (lower (strip a)) (lower t)"
  let ?f = "\<lambda>t. if ?P t then 1 else (0::int)"
  have hits: "hit_loop [] ans texts = map ?f texts" by (rule hit_loop_indicator)
  from assms(2) have "length texts = length docs" by (auto dest: retrieved_doc_texts_length)
  with assms(3) have ne: "texts \<noteq> []" by auto
  with assms(4) have tne: "take (nat K) texts \<noteq> []" by (cases texts) auto
  from ne assms(4) have "recall_at (map ?f texts) K
      = Inr (real_of_int (Max (set (take (nat K) (map ?f texts)))))"
    by (simp add: recall_at_take)
  also have "Max (set (take (nat K) (map ?f texts))) = Max (set (map ?f (take (nat K) texts)))"
    by (simp add: take_map)
  also from tne have "\<dots> = (if \<exists>t\<in>set (take (nat K) texts). ?P t then 1 else 0)"
    by (rule Max_indicator)
  finally have "recall_at (map ?f texts) K
      = Inr (if \<exists>t\<in>set (take (nat K) texts). ?P t then 1 else 0)"
    by simp
  with assms(1,2) hits have query: "score_query pc ranking [K] [] qid ans
      = Inr [(K, [if \<exists>t\<in>set (take (nat K) texts). ?P t then 1 else 0])]"
    by (simp add: score_query_def)
  have scenario: "score_query [p1, ''The capital is Paris, France.'', p3, p4, p5]
            [(qid, [(0, 1, s1), (1, 2, s2), (2, 3, s3), (3, 4, s4), (4, 5, s5)])]
            [1, 5] [] qid [''paris'']
          = Inr [(1, [0]), (5, [1])]" if "\<not> str_in ''paris'' (lower p1)"
    using that
    by (simp add: score_query_def getitem_def recall_at_def slice_to_def py_max_def
        lower_def lower_char_def strip_def is_space_def)
  from hits query scenario show ?thesis by (simp add: str_in_iff)
qed

theorem recall_is_hit_indicator_witness:
  "hit_loop [] [''paris'']
       [''Rome is in Italy.'', ''The capital is Paris, France.'', ''a'', ''b'', ''c'']
     = [0, 1, 0, 0, 0]
   \<and> score_query [''Rome is in Italy.'', ''The capital is Paris, France.'', ''a'', ''b'', ''c'']
        [(''q1'', [(0, 1, 5), (1, 2, 4), (2, 3, 3), (3, 4, 2), (4, 5, 1)])] [5] [] ''q1'' [''paris'']
     = Inr [(5, [1])]"
proof -
  let ?pc = "[''Rome is in Italy.'', ''The capital is Paris, France.'', ''a'', ''b'', ''c'']"
  let ?docs = "[(0, 1, 5), (1, 2, 4), (2, 3, 3), (3, 4, 2), (4, 5, 1)] :: doc list"
  have h1: "map_of [(''q1'', ?docs)] ''q1'' = Some ?docs" by simp
  have h2: "retrieved_doc_texts ?pc (map fst ?docs) = Inr ?pc" by (simp add: getitem_def)
  have h3: "?docs \<noteq> []" by simp
  have h4: "(1::int) \<le> 5" by simp
  note t = recall_is_hit_indicator [OF h1 h2 h3 h4, where ans = "[''paris'']"]
  from t [THEN conjunct2, THEN conjunct1] t [THEN conjunct2, THEN conjunct2, THEN conjunct1]
  show ?thesis by (simp add: lower_def lower_char_def strip_def is_space_def)
qed

text \<open>
  The claim as stated fails where the ranking of a query is empty: no passage is a hit,
  yet the recall is not 0, the evaluation raises ValueError.
\<close>

theorem recall_empty_ranking_counterexample:
  "score_query [''<BOK> The capital is Paris, France. <EOK>''] [(''q1'', [])] [1] [] ''q1'' [''paris'']
     = Inl ValueError"
  by (simp add: score_query_def recall_at_def slice_to_def py_max_def)

section \<open>Failures of a batch\<close>

text \<open>
  Claim C8. If the ranking dictionary has no entry for a question id of the batch, the
  lookup for that query raises KeyError and the batch returns an error, never a recall
  record.
\<close>

theorem missing_query_id_fails:
  assumes "(qid, ans) \<in> set (zip (question_id b) (answers b))"
    and "map_of ranking qid = None"
  shows "score_query pc ranking Ks d qid ans = Inl (KeyError qid)
     \<and> (\<exists>e. encode_and_search_batch ranking pc b Ks = Inl e)"
proof -
  from assms(2) have miss: "\<And>d. score_query pc ranking Ks d qid ans = Inl (KeyError qid)"
    by (rule score_query_missing)
  then have "\<And>d. \<exists>e. score_query pc ranking Ks d qid ans = Inl e" by blast
  with assms(1) have "\<exists>e. query_loop pc ranking Ks [] (zip (question_id b) (answers b)) = Inl e"
    by (rule query_loop_fails)
  then have "\<exists>e. encode_and_search_batch ranking pc b Ks = Inl e"
    by (auto simp: encode_and_search_batch_def split: sum.splits)
  with miss show ?thesis by blast
qed

theorem missing_query_id_fails_witness:
  "score_query [''<BOK> Paris <EOK>''] [(''q1'', [(0, 1, 2)])] [1] [] ''q2'' [''rome''] = Inl (KeyError ''q2'')
     \<and> encode_and_search_batch [(''q1'', [(0, 1, 2)])] [''<BOK> Paris <EOK>'']
          \<lparr>question_id = [''q1'', ''q2''], answers = [[''paris''], [''rome'']]\<rparr> [1] = Inl (KeyError ''q2'')"
  using missing_query_id_fails [of "''q2''" "[''rome'']"
      "\<lparr>question_id = [''q1'', ''q2''], answers = [[''paris''], [''rome'']]\<rparr>"
      "[(''q1'', [(0, 1, 2)])]" "[''<BOK> Paris <EOK>'']" "[1]" "[]"]
  by (simp add: encode_and_search_batch_def py_max_def score_query_def getitem_def recall_at_def slice_to_def lower_def lower_char_def strip_def is_space_def)




section \<open>Region boxes\<close>



text \<open>
  Claim C6, amended. The enlargement has no error condition. It returns a valid box
  whenever the box it is given is valid; a box that is not under 5 pixels in both
  directions is returned as it is, valid or not; an enlarged box has non-negative lower
  coordinates and upper coordinates within the image size.
\<close>

theorem sanitize_keeps_valid_box:
  "(valid_box b image_size \<longrightarrow> valid_box (sanitize b image_size) image_size)
   \<and> (\<not> (xmax - xmin < 5 \<and> ymax - ymin < 5) \<longrightarrow>
        sanitize (xmin, ymin, xmax, ymax) image_size = (xmin, ymin, xmax, ymax))
   \<and> (xmax - xmin < 5 \<and> ymax - ymin < 5 \<longrightarrow>
        (case sanitize (xmin, ymin, xmax, ymax) image_size of
           (xmin', ymin', xmax', ymax') \<Rightarrow>
             0 \<le> xmin' \<and> 0 \<le> ymin'
           \<and> xmax' \<le> real_of_int (fst image_size) \<and> ymax' \<le> real_of_int (snd image_size)))"
proof -
  obtain x0 y0 x1 y1 where b: "b = (x0, y0, x1, y1)" by (cases b)
  obtain W H where sz: "image_size = (W, H)" by (cases image_size)
  have keep: "valid_box b image_size \<longrightarrow> valid_box (sanitize b image_size) image_size"
  proof (cases "x1 - x0 < 5 \<and> y1 - y0 < 5")
    case True
    then have "sanitize (x0, y0, x1, y1) (W, H)
       = (max 0 (x0 - 2.5), max 0 (y0 - 2.5),
          min (real_of_int W) (x1 + 2.5), min (real_of_int H) (y1 + 2.5))"
      by (simp add: sanitize_small)
    with b sz show ?thesis by (auto simp: valid_box_def)
  next
    case False
    then have "sanitize (x0, y0, x1, y1) (W, H) = (x0, y0, x1, y1)" by (rule sanitize_large)
    with b sz show ?thesis by simp
  qed
  have unchanged: "\<not> (xmax - xmin < 5 \<and> ymax - ymin < 5) \<longrightarrow>
        sanitize (xmin, ymin, xmax, ymax) image_size = (xmin, ymin, xmax, ymax)"
    by (simp add: sanitize_large)
  have enlarged: "xmax - xmin < 5 \<and> ymax - ymin < 5 \<longrightarrow>
        (case sanitize (xmin, ymin, xmax, ymax) image_size of
           (xmin', ymin', xmax', ymax') \<Rightarrow>
             0 \<le> xmin' \<and> 0 \<le> ymin'
           \<and> xmax' \<le> real_of_int (fst image_size) \<and> ymax' \<le> real_of_int (snd image_size))"
    using sz by (simp add: sanitize_small)
  from keep unchanged enlarged show ?thesis by blast
qed

theorem sanitize_keeps_valid_box_witness:
  "valid_box (1, 1, 2, 2) (100, 100) \<and> sanitize (1, 1, 2, 2) (100, 100) = (0, 0, 4.5, 4.5)
     \<and> valid_box (sanitize (1, 1, 2, 2) (100, 100)) (100, 100)
     \<and> sanitize (10, 10, 30, 12) (100, 100) = (10, 10, 30, 12)"
  using sanitize_keeps_valid_box [of "(1, 1, 2, 2)" "(100, 100)" 30 10 12 10]
    sanitize_keeps_valid_box [of "(1, 1, 2, 2)" "(100, 100)" 2 1 2 1]
  by (simp add: valid_box_def sanitize_def)

text \<open>
  The claim as stated fails for a box that reaches beyond the image: it is 14 pixels wide,
  so it is returned unchanged, with its upper coordinates outside the image.
\<close>

theorem sanitize_out_of_bounds_counterexample:
  "sanitize (90, 90, 104, 104) (100, 100) = (90, 90, 104, 104)
     \<and> \<not> valid_box (sanitize (90, 90, 104, 104) (100, 100)) (100, 100)"
  by (simp add: sanitize_def valid_box_def)

section \<open>The text sequence\<close>

text \<open>
  Claim C4. For every detected object the attributes appended to the vision segment are
  the attributes whose score exceeds 0.05, in their original order, cut to the first 3;
  they are followed by the class name and the separator. For the attributes red, tall,
  old, blue with the scores 0.9, 0.01, 0.2, 0.5 the selection is red, old, blue.
\<close>

theorem suitable_attributes_selected:
  "attribute_loop [] (zip (attributes obj) (attribute_scores obj))
     = take 3 (map fst (filter (\<lambda>(a, sc). sc > 0.05) (zip (attributes obj) (attribute_scores obj))))
   \<and> object_loop vision_sentences [obj]
     = vision_sentences
       @ take 3 (map fst (filter (\<lambda>(a, sc). sc > 0.05) (zip (attributes obj) (attribute_scores obj))))
       @ [obj_class obj, ''<SOV>'']
   \<and> attribute_loop [] (zip [''red'', ''tall'', ''old'', ''blue''] [0.9, 0.01, 0.2, 0.5])
     = [''red'', ''old'', ''blue'']"
proof -
  have sel: "attribute_loop [] zs = take 3 (map fst (filter (\<lambda>(a, sc). sc > 0.05) zs))" for zs
    by (simp add: attribute_loop_take)
  have "object_loop vision_sentences [obj]
     = vision_sentences @ attribute_loop [] (zip (attributes obj) (attribute_scores obj))
       @ [obj_class obj, ''<SOV>'']"
    by (simp add: attribute_max_def)
  moreover have "attribute_loop [] (zip [''red'', ''tall'', ''old'', ''blue''] [0.9, 0.01, 0.2, 0.5])
     = [''red'', ''old'', ''blue'']"
    by (simp add: attribute_thres_def attribute_max_def)
  ultimately show ?thesis by (simp add: sel)
qed

text \<open>
  Claim C7. The text sequence that \<^verbatim>\<open>prepare_inputs\<close> returns is the question segment, the
  vision segment and the caption segment in this order, each between its start and end
  token, all words joined by single spaces. The vision segment holds, after the words of
  all objects, the OCR descriptions, stripped and with each newline replaced by a space,
  without duplicates and in the order of first occurrence. The caption is the string
  itself or the entry \<^verbatim>\<open>caption\<close> of the dictionary.
\<close>

theorem text_sequence_composition:
  assumes "prepare_inputs s num_ROIs = Inr s'"
  shows "text_sequence s'
       = Some (join '' ''
           [join '' '' [''<BOQ>'', question s, ''<EOQ>''],
            join '' '' ([''<BOV>'']
              @ concat (map (\<lambda>obj. attribute_loop [] (zip (attributes obj) (attribute_scores obj))
                                   @ [obj_class obj, ''<SOV>'']) (objects s))
              @ first_occurrences (map (\<lambda>a. replace_newline (strip (description a))) (img_ocr s))
              @ [''<EOV>'']),
            join '' '' [''<BOC>'',
              case img_caption s of Caption_dict c \<Rightarrow> c | Caption_str c \<Rightarrow> c, ''<EOC>'']])
     \<and> text_sequence s'
       = Some (join '' ''
           ([''<BOQ>'', question s, ''<EOQ>'']
            @ [''<BOV>'']
            @ concat (map (\<lambda>obj. attribute_loop [] (zip (attributes obj) (attribute_scores obj))
                                 @ [obj_class obj, ''<SOV>'']) (objects s))
            @ first_occurrences (map (\<lambda>a. replace_newline (strip (description a))) (img_ocr s))
            @ [''<EOV>'']
            @ [''<BOC>'',
               case img_caption s of Caption_dict c \<Rightarrow> c | Caption_str c \<Rightarrow> c, ''<EOC>'']))
     \<and> ocr_loop [] (img_ocr s)
       = first_occurrences (map (\<lambda>a. replace_newline (strip (description a))) (img_ocr s))
     \<and> distinct (ocr_loop [] (img_ocr s))
     \<and> set (ocr_loop [] (img_ocr s))
       = (\<lambda>a. replace_newline (strip (description a))) ` set (img_ocr s)
     \<and> (\<forall>d\<in>set (ocr_loop [] (img_ocr s)). CHR 0x0A \<notin> set d)"
proof -
  let ?Q = "[''<BOQ>'', question s, ''<EOQ>'']"
  let ?V = "[''<BOV>'']
              @ concat (map (\<lambda>obj. attribute_loop [] (zip (attributes obj) (attribute_scores obj))
                                   @ [obj_class obj, ''<SOV>'']) (objects s))
              @ first_occurrences (map (\<lambda>a. replace_newline (strip (description a))) (img_ocr s))
              @ [''<EOV>'']"
  let ?C = "[''<BOC>'', case img_caption s of Caption_dict c \<Rightarrow> c | Caption_str c \<Rightarrow> c, ''<EOC>'']"
  from assms have ts: "text_sequence s' = Some (compose_text s)" by (rule prepare_inputs_text)
  have seg: "compose_text s = join '' '' ?Q @ '' '' @ join '' '' ?V @ '' '' @ join '' '' ?C"
    using compose_text_segments [of s] by simp
  then have nested: "compose_text s = join '' '' [join '' '' ?Q, join '' '' ?V, join '' '' ?C]"
    by simp
  have "join '' '' (?Q @ (?V @ ?C)) = join '' '' ?Q @ '' '' @ join '' '' (?V @ ?C)"
    by (rule join_append) simp_all
  also have "join '' '' (?V @ ?C) = join '' '' ?V @ '' '' @ join '' '' ?C"
    by (rule join_append) simp_all
  finally have flat: "compose_text s = join '' '' (?Q @ ?V @ ?C)"
    using seg by simp
  have fo: "ocr_loop [] (img_ocr s)
      = first_occurrences (map (\<lambda>a. replace_newline (strip (description a))) (img_ocr s))"
    by (rule ocr_loop_first_occurrences)
  have dist: "distinct (ocr_loop [] (img_ocr s))"
    by (simp add: fo distinct_first_occurrences)
  have st: "set (ocr_loop [] (img_ocr s))
      = (\<lambda>a. replace_newline (strip (description a))) ` set (img_ocr s)"
    by (simp add: fo set_first_occurrences)
  have nl: "\<forall>d\<in>set (ocr_loop [] (img_ocr s)). CHR 0x0A \<notin> set d"
    by (auto simp: st replace_newline_no_newline)
  from ts nested have c1: "text_sequence s' = Some (join '' '' [join '' '' ?Q, join '' '' ?V, join '' '' ?C])"
    by simp
  from ts flat have c2: "text_sequence s' = Some (join '' '' (?Q @ ?V @ ?C))" by simp
  from c1 c2 fo dist st nl show ?thesis by (simp only: append_assoc) 
qed

theorem text_sequence_composition_witness:
  "\<exists>s'. prepare_inputs
        \<lparr>question = ''What is this?'', img_path = ''a.jpg'',
           objects = [\<lparr>obj_class = ''car'', attributes = [''red'', ''tall'', ''old'', ''blue''],
                       attribute_scores = [0.9, 0.01, 0.2, 0.5]\<rparr>],
           img_ocr = [\<lparr>description = '' STOP ''\<rparr>,
                      \<lparr>description = [CHR ''a'', CHR 0x0A, CHR ''b'']\<rparr>,
                      \<lparr>description = ''STOP''\<rparr>],
           img_caption = Caption_dict ''a red car'',
           ROIs = [''a.jpg|||car_1_2_3_4''], text_sequence = None\<rparr> 3 = Inr s'
     \<and> text_sequence s'
       = Some ''<BOQ> What is this? <EOQ> <BOV> red old blue car <SOV> STOP a b <EOV> <BOC> a red car <EOC>''"
proof -
  let ?s = "\<lparr>question = ''What is this?'', img_path = ''a.jpg'',
           objects = [\<lparr>obj_class = ''car'', attributes = [''red'', ''tall'', ''old'', ''blue''],
                       attribute_scores = [0.9, 0.01, 0.2, 0.5]\<rparr>],
           img_ocr = [\<lparr>description = '' STOP ''\<rparr>,
                      \<lparr>description = [CHR ''a'', CHR 0x0A, CHR ''b'']\<rparr>,
                      \<lparr>description = ''STOP''\<rparr>],
           img_caption = Caption_dict ''a red car'',
           ROIs = [''a.jpg|||car_1_2_3_4''], text_sequence = None\<rparr>"
  let ?s' = "?s\<lparr>text_sequence := Some (compose_text ?s),
                ROIs := [''a.jpg|||car_1_2_3_4'', ''a.jpg|||car_1_2_3_4'', ''a.jpg|||car_1_2_3_4'']\<rparr>"
  have h: "prepare_inputs ?s 3 = Inr ?s'"
    by (simp add: prepare_inputs_def pad_ROIs_def getitem_def slice_to_def numeral_eq_Suc)
  from text_sequence_composition [OF h, THEN conjunct2, THEN conjunct1]
  have "text_sequence ?s'
       = Some ''<BOQ> What is this? <EOQ> <BOV> red old blue car <SOV> STOP a b <EOV> <BOC> a red car <EOC>''"
    by (simp add: attribute_thres_def attribute_max_def strip_def is_space_def replace_newline_def)
  with h show ?thesis by blast
qed

section \<open>The crop list\<close>



end
